theory Spec2Isabelle
  imports Main "HOL-Library.Multiset" "HOL-Library.Option_ord"
begin

section \<open>Data model of the samples view state\<close>

text \<open>
  A JavaScript object is a finite map from property names to values. The values are
  opaque to the reducer, so their type is a parameter; the order on it is the one the
  sort of the document list compares creation stamps with.
\<close>

type_synonym 'v obj = "string \<rightharpoonup> 'v"

text \<open>
  The object spread \<^verbatim>\<open>{...x}\<close> copies the own properties of an object and copies
  nothing from \<^verbatim>\<open>null\<close> or \<^verbatim>\<open>undefined\<close>, which \<open>None\<close> stands for.
\<close>

definition spread :: "'v obj option \<Rightarrow> 'v obj" where
  "spread x = (case x of None \<Rightarrow> Map.empty | Some ob \<Rightarrow> ob)"

text \<open>
  The state of \<^verbatim>\<open>samples/reducer.js\<close>. The first eleven fields are those of
  \<^verbatim>\<open>initialState\<close>; the field \<^verbatim>\<open>term\<close> is written \<open>term_field\<close>, and
  \<^verbatim>\<open>null\<close> is \<open>None\<close>. The last three fields are not in \<^verbatim>\<open>initialState\<close>: they
  are the totals of the Pagination Envelope and the fixed page size of sections 3 and
  4.1 of the specification, which only the helpers of \<^verbatim>\<open>utils/reducers\<close> (see below)
  read or write; the reducer's own cases never touch them.
\<close>

record 'v state =
  documents :: "'v obj list option"
  term_field :: string
  page :: int
  detail :: "'v obj option"
  readFiles :: "'v obj list option"
  showEdit :: bool
  showRemove :: bool
  editError :: bool
  reservedFiles :: "'v list"
  readyHosts :: "'v obj list option"
  selected :: "'v list"
  totalDocumentCount :: int
  totalPageCount :: int
  pageSize :: "nat option"

definition initialState :: "'v state" where
  "initialState =
     \<lparr> documents = None, term_field = '''', page = 0, detail = None, readFiles = None,
       showEdit = False, showRemove = False, editError = False, reservedFiles = [],
       readyHosts = None, selected = [],
       totalDocumentCount = 0, totalPageCount = 0, pageSize = None \<rparr>"

text \<open>
  What the helpers of \<^verbatim>\<open>utils/reducers\<close> read of an action, in the shapes of
  section 6 of the specification: a push event names one document and may carry a
  payload (the empty object when it carries none); a query result is one page of a
  listing together with the query parameters it answers.
\<close>

record 'v push_event =
  documentId :: 'v
  payload :: "'v obj"

record 'v query_result =
  r_documents :: "'v obj list"
  r_page :: int
  r_totalDocumentCount :: int
  r_totalPageCount :: int
  r_term :: string

text \<open>
  An action is a tagged object; each constructor is one action type the reducer imports
  from \<^verbatim>\<open>app/actionTypes\<close> and carries the properties of the action that the reducer's
  case for it reads (\<^verbatim>\<open>action.term\<close>, \<^verbatim>\<open>action.data\<close>, \<^verbatim>\<open>action.data.documents\<close>,
  \<^verbatim>\<open>action.sampleId\<close>). A query request also carries the page it asks for
  (\<^verbatim>\<open>action.page\<close>, \<open>None\<close> when the action has none), which the reducer's case does
  not read. \<open>OTHER\<close> is an action of any other type, named by its type.
\<close>

datatype 'v action =
    WS_INSERT_SAMPLE "'v push_event"
  | WS_UPDATE_SAMPLE "'v push_event"
  | WS_REMOVE_SAMPLE "'v push_event"
  | FIND_SAMPLES_REQUESTED string "int option"
  | FIND_SAMPLES_SUCCEEDED "'v query_result"
  | FIND_READ_FILES_SUCCEEDED "'v obj list option"
  | FIND_READY_HOSTS_SUCCEEDED "'v obj list option"
  | GET_SAMPLE_REQUESTED
  | GET_SAMPLE_SUCCEEDED "'v obj option"
  | UPDATE_SAMPLE_SUCCEEDED "'v obj option"
  | UPDATE_SAMPLE_RIGHTS_SUCCEEDED "'v obj option"
  | REMOVE_SAMPLE_SUCCEEDED
  | SHOW_REMOVE_SAMPLE
  | HIDE_SAMPLE_MODAL
  | SELECT_SAMPLE 'v
  | CLEAR_SAMPLE_SELECTION
  | OTHER string

fun handled :: "'v action \<Rightarrow> bool" where
  "handled (OTHER t) = False"
| "handled a = True"

section \<open>The array functions of lodash that the reducer calls\<close>

text \<open>
  \<^verbatim>\<open>xor(a, b)\<close> of lodash: \<^verbatim>\<open>baseDifference\<close> keeps the elements of one array that
  do not occur in the other, in order; the two differences are concatenated and
  \<^verbatim>\<open>baseUniq\<close> keeps the first occurrence of each value.
\<close>

definition baseDifference :: "'a list \<Rightarrow> 'a list \<Rightarrow> 'a list" where
  "baseDifference array vals = filter (\<lambda>x. x \<notin> set vals) array"

fun baseUniq_from :: "'a list \<Rightarrow> 'a list \<Rightarrow> 'a list" where
  "baseUniq_from seen [] = []"
| "baseUniq_from seen (x # xs) =
     (if x \<in> set seen then baseUniq_from seen xs else x # baseUniq_from (x # seen) xs)"

definition baseUniq :: "'a list \<Rightarrow> 'a list" where
  "baseUniq xs = baseUniq_from [] xs"

definition xor_arrays :: "'a list \<Rightarrow> 'a list \<Rightarrow> 'a list" where
  "xor_arrays a b = baseUniq (baseDifference a b @ baseDifference b a)"

section \<open>The helpers of utils/reducers\<close>

text \<open>
  The reducer imports \<^verbatim>\<open>updateDocuments\<close>, \<^verbatim>\<open>insert\<close>, \<^verbatim>\<open>update\<close> and
  \<^verbatim>\<open>remove\<close> from \<^verbatim>\<open>utils/reducers\<close>, a file that is not among the sources. Every
  definition of this section is written from sections 3, 4.1, 4.2 and 5 of the
  specification instead.
\<close>

text \<open>
  Modelled from the spec: the Document Store that the missing helpers of
  \<^verbatim>\<open>utils/reducers\<close> work on (section 3). The identifier of a document is its
  property \<^verbatim>\<open>id\<close>; a state whose \<^verbatim>\<open>documents\<close> is \<^verbatim>\<open>null\<close> holds the empty
  sequence; an identifier is present when a document of the sequence carries it.
\<close>

definition doc_id :: "'v obj \<Rightarrow> 'v option" where
  "doc_id d = d ''id''"

definition docs_of :: "'v state \<Rightarrow> 'v obj list" where
  "docs_of s = (case documents s of None \<Rightarrow> [] | Some ds \<Rightarrow> ds)"

definition present :: "'v \<Rightarrow> 'v obj list \<Rightarrow> bool" where
  "present i ds = (Some i \<in> set (map doc_id ds))"

text \<open>
  Modelled from the spec: the two steps of the missing \<^verbatim>\<open>insert\<close> of
  \<^verbatim>\<open>utils/reducers\<close> (section 4.1). The position of an inserted document is before
  the first document that the sort field orders strictly after it (ascending) or
  strictly before it (descending), a missing sort field ordering before every value;
  a page with a fixed size that the insertion overflows loses its last element.
\<close>

fun insert_sorted :: "string \<Rightarrow> bool \<Rightarrow> ('v::linorder) obj \<Rightarrow> 'v obj list \<Rightarrow> 'v obj list" where
  "insert_sorted sortField sortAscending p [] = [p]"
| "insert_sorted sortField sortAscending p (d # ds) =
     (if (if sortAscending then p sortField < d sortField else d sortField < p sortField)
      then p # d # ds
      else d # insert_sorted sortField sortAscending p ds)"

definition evict :: "nat option \<Rightarrow> 'a list \<Rightarrow> 'a list" where
  "evict bound ds =
     (case bound of None \<Rightarrow> ds | Some n \<Rightarrow> if n < length ds then butlast ds else ds)"

text \<open>
  Modelled from the spec: \<^verbatim>\<open>update\<close> of
  \<^verbatim>\<open>utils/reducers\<close>, which is missing from the sources. Section
  4.1, Update: a present document is shallow-merged with the payload in place; an absent
  one leaves the state as it is.
\<close>

definition update :: "'v state \<Rightarrow> 'v push_event \<Rightarrow> 'v state" where
  "update s ev =
     (if present (documentId ev) (docs_of s)
      then s\<lparr>documents :=
             Some (map (\<lambda>d. if doc_id d = Some (documentId ev) then d ++ payload ev else d)
                    (docs_of s))\<rparr>
      else s)"

text \<open>
  Modelled from the spec: \<^verbatim>\<open>insert\<close> of
  \<^verbatim>\<open>utils/reducers\<close>, which is missing from the sources. Section
  4.1, Insert: a present identifier is an Update; otherwise the payload goes to its sorted
  position, the count grows by one, and a bounded page that overflows loses its last
  element.
\<close>

definition insert_docs :: "('v::linorder) state \<Rightarrow> 'v push_event \<Rightarrow> string \<Rightarrow> bool \<Rightarrow> 'v state" where
  "insert_docs s ev sortField sortAscending =
     (if present (documentId ev) (docs_of s)
      then update s ev
      else s\<lparr>documents :=
               Some (evict (pageSize s)
                      (insert_sorted sortField sortAscending (payload ev) (docs_of s))),
             totalDocumentCount := totalDocumentCount s + 1\<rparr>)"

text \<open>
  Modelled from the spec: \<^verbatim>\<open>remove\<close> of
  \<^verbatim>\<open>utils/reducers\<close>, which is missing from the sources. Section
  4.1, Remove: a present document is deleted and the count drops by one, not below zero;
  an absent one leaves sequence and count as they are. A Remove event for the open detail
  clears the detail slot.
\<close>

definition remove :: "'v state \<Rightarrow> 'v push_event \<Rightarrow> 'v state" where
  "remove s ev =
     (let s1 =
        (if present (documentId ev) (docs_of s)
         then s\<lparr>documents := Some (filter (\<lambda>d. doc_id d \<noteq> Some (documentId ev)) (docs_of s)),
                totalDocumentCount := max 0 (totalDocumentCount s - 1)\<rparr>
         else s)
      in case detail s of
           None \<Rightarrow> s1
         | Some d \<Rightarrow> if doc_id d = Some (documentId ev) then s1\<lparr>detail := None\<rparr> else s1)"

text \<open>
  Modelled from the spec: \<^verbatim>\<open>updateDocuments\<close> of
  \<^verbatim>\<open>utils/reducers\<close>, which is missing from the sources. Section
  4.2: a query success replaces documents, page, both totals and the filter term from the
  response. Section 5: a response whose echoed term or page differs from the envelope's is
  discarded.
\<close>

definition updateDocuments :: "'v state \<Rightarrow> 'v query_result \<Rightarrow> 'v state" where
  "updateDocuments s r =
     (if r_term r = term_field s \<and> r_page r = page s
      then s\<lparr>documents := Some (r_documents r),
             page := r_page r,
             totalDocumentCount := r_totalDocumentCount r,
             totalPageCount := r_totalPageCount r,
             term_field := r_term r\<rparr>
      else s)"

section \<open>The samples reducer\<close>

text \<open>
  \<^verbatim>\<open>samplesReducer\<close> of \<^verbatim>\<open>samples/reducer.js\<close>, one equation per case of its
  \<^verbatim>\<open>switch\<close>, in the order of the source. \<^verbatim>\<open>{...state, f: v}\<close> is the record update
  of field \<open>f\<close>.
\<close>

fun samplesReducer :: "('v::linorder) state \<Rightarrow> 'v action \<Rightarrow> 'v state" where
  "samplesReducer s (WS_INSERT_SAMPLE ev) = insert_docs s ev ''created_at'' True"
| "samplesReducer s (WS_UPDATE_SAMPLE ev) = update s ev"
| "samplesReducer s (WS_REMOVE_SAMPLE ev) = remove s ev"
| "samplesReducer s (FIND_SAMPLES_REQUESTED t p) = s\<lparr>term_field := t\<rparr>"
| "samplesReducer s (FIND_SAMPLES_SUCCEEDED r) = updateDocuments s r"
| "samplesReducer s (FIND_READ_FILES_SUCCEEDED ds) = s\<lparr>readFiles := ds\<rparr>"
| "samplesReducer s (FIND_READY_HOSTS_SUCCEEDED ds) = s\<lparr>readyHosts := ds\<rparr>"
| "samplesReducer s GET_SAMPLE_REQUESTED = s\<lparr>detail := None\<rparr>"
| "samplesReducer s (GET_SAMPLE_SUCCEEDED d) = s\<lparr>detail := d\<rparr>"
| "samplesReducer s (UPDATE_SAMPLE_SUCCEEDED d) =
     s\<lparr>detail := Some (spread (detail s) ++ spread d)\<rparr>"
| "samplesReducer s (UPDATE_SAMPLE_RIGHTS_SUCCEEDED d) =
     s\<lparr>detail := Some (spread (detail s) ++ spread d)\<rparr>"
| "samplesReducer s REMOVE_SAMPLE_SUCCEEDED = s\<lparr>detail := None\<rparr>"
| "samplesReducer s SHOW_REMOVE_SAMPLE = s\<lparr>showRemove := True\<rparr>"
| "samplesReducer s HIDE_SAMPLE_MODAL = s\<lparr>showRemove := False\<rparr>"
| "samplesReducer s (SELECT_SAMPLE sampleId) =
     s\<lparr>selected := xor_arrays (selected s) [sampleId]\<rparr>"
| "samplesReducer s CLEAR_SAMPLE_SELECTION = s\<lparr>selected := []\<rparr>"
| "samplesReducer s (OTHER t) = s"

text \<open>
  The default of the parameter, \<^verbatim>\<open>state = initialState\<close>: a call without a state
  reduces the initial state.
\<close>

definition samplesReducer_default :: "('v::linorder) state option \<Rightarrow> 'v action \<Rightarrow> 'v state" where
  "samplesReducer_default st a =
     samplesReducer (case st of None \<Rightarrow> initialState | Some s \<Rightarrow> s) a"

text \<open>The reducer folded over a stream of actions, in arrival order.\<close>

definition run :: "('v::linorder) state \<Rightarrow> 'v action list \<Rightarrow> 'v state" where
  "run s evs = foldl samplesReducer s evs"

text \<open>
  A push action is well formed when its payload is about the document the event names:
  the payload of an Insert carries the event's identifier, and the payload of an Update
  either carries it too or has no identifier at all.
\<close>

fun wf_push :: "'v action \<Rightarrow> bool" where
  "wf_push (WS_INSERT_SAMPLE ev) = (doc_id (payload ev) = Some (documentId ev))"
| "wf_push (WS_UPDATE_SAMPLE ev) =
     (doc_id (payload ev) = None \<or> doc_id (payload ev) = Some (documentId ev))"
| "wf_push (WS_REMOVE_SAMPLE ev) = True"
| "wf_push a = False"

section \<open>Reordering the segments of a schema\<close>

text \<open>
  \<^verbatim>\<open>Array.prototype.splice(start, deleteCount, ...items)\<close>: a negative start counts
  from the end, a start outside the array is clamped to it, and no more elements are
  deleted than the array holds from the start on. The result is the array after the
  call together with the array of the deleted elements.
\<close>

definition actualStart :: "int \<Rightarrow> nat \<Rightarrow> nat" where
  "actualStart start len =
     (if start < 0 then nat (max (int len + start) 0) else min (nat start) len)"

definition splice :: "'a list \<Rightarrow> int \<Rightarrow> nat \<Rightarrow> 'a list \<Rightarrow> 'a list \<times> 'a list" where
  "splice array start deleteCount items =
     (let a = actualStart start (length array);
          c = min deleteCount (length array - a)
      in (take a array @ items @ drop (a + c) array, take c (drop a array)))"

text \<open>
  \<^verbatim>\<open>reorder\<close> of the schema component. An array slot holds a value or
  \<^verbatim>\<open>undefined\<close>, which is \<open>None\<close>: the destructuring \<^verbatim>\<open>const [removed] = ...\<close>
  yields \<^verbatim>\<open>undefined\<close> when the first splice deleted nothing, and the second splice
  inserts it all the same.
\<close>

definition reorder :: "'a option list \<Rightarrow> int \<Rightarrow> int \<Rightarrow> 'a option list" where
  "reorder list startIndex endIndex =
     (let (result, deleted) = splice list startIndex 1 [];
          removed = (case deleted of [] \<Rightarrow> None | x # rest \<Rightarrow> x)
      in fst (splice result endIndex 0 [removed]))"

section \<open>Selection\<close>

lemma set_baseUniq_from: "set (baseUniq_from seen xs) = set xs - set seen"
  by (induction xs arbitrary: seen) auto

lemma set_baseUniq: "set (baseUniq xs) = set xs"
  by (simp add: baseUniq_def set_baseUniq_from)

lemma set_xor_arrays: "set (xor_arrays a b) = (set a - set b) \<union> (set b - set a)"
  by (auto simp: xor_arrays_def set_baseUniq baseDifference_def)

lemma distinct_baseUniq_from: "distinct (baseUniq_from seen xs)"
  by (induction xs arbitrary: seen) (auto simp: set_baseUniq_from)

lemma distinct_xor_arrays: "distinct (xor_arrays a b)"
  by (simp add: xor_arrays_def baseUniq_def distinct_baseUniq_from)

text \<open>
  C3. For every state and identifier, \<^verbatim>\<open>SELECT_SAMPLE\<close> turns the set of selected
  identifiers into its symmetric difference with the singleton of the identifier: the
  identifier is selected afterwards exactly when it was not selected before, and every
  other identifier keeps its status. Toggling the same identifier twice gives back the
  original set.
\<close>

theorem select_sample_symmetric_difference:
  "set (selected (samplesReducer s (SELECT_SAMPLE i)))
     = (set (selected s) - {i}) \<union> ({i} - set (selected s))
   \<and> (i \<in> set (selected (samplesReducer s (SELECT_SAMPLE i))) \<longleftrightarrow> i \<notin> set (selected s))
   \<and> set (selected (samplesReducer (samplesReducer s (SELECT_SAMPLE i)) (SELECT_SAMPLE i)))
     = set (selected s)"
  by (auto simp: set_xor_arrays)

theorem select_sample_symmetric_difference_witness:
  "selected (samplesReducer (initialState\<lparr>selected := [5, 7]\<rparr>) (SELECT_SAMPLE (5::nat))) = [7]
   \<and> selected (samplesReducer (initialState\<lparr>selected := [7]\<rparr>) (SELECT_SAMPLE (5::nat))) = [7, 5]
   \<and> set (selected (samplesReducer (samplesReducer (initialState\<lparr>selected := [5, 7]\<rparr>)
            (SELECT_SAMPLE (5::nat))) (SELECT_SAMPLE 5))) = {5, 7}"
  using select_sample_symmetric_difference [of "initialState\<lparr>selected := [5, 7]\<rparr>" "5::nat"]
  by (simp add: initialState_def xor_arrays_def baseUniq_def baseDifference_def)

section \<open>The detail slot\<close>

text \<open>
  C5, as the code has it. For every state, \<^verbatim>\<open>REMOVE_SAMPLE.SUCCEEDED\<close> sets the
  detail slot to \<^verbatim>\<open>null\<close> and changes no other field, and \<^verbatim>\<open>GET_SAMPLE.REQUESTED\<close>
  does the same: the value written on removal is the value written while loading.
\<close>

theorem remove_succeeded_clears_detail:
  "samplesReducer s REMOVE_SAMPLE_SUCCEEDED = s\<lparr>detail := None\<rparr>
   \<and> detail (samplesReducer s REMOVE_SAMPLE_SUCCEEDED) = None
   \<and> detail (samplesReducer s GET_SAMPLE_REQUESTED) = None"
  by simp

text \<open>
  C5, as the claim states it, fails: with a sample open in the detail slot, the detail
  after \<^verbatim>\<open>REMOVE_SAMPLE.SUCCEEDED\<close> is not distinct from the detail after
  \<^verbatim>\<open>GET_SAMPLE.REQUESTED\<close>.
\<close>

theorem remove_succeeded_not_distinct_from_loading:
  "\<not> (detail (samplesReducer (initialState\<lparr>detail := Some [''id'' \<mapsto> 9::nat]\<rparr>)
              REMOVE_SAMPLE_SUCCEEDED)
        \<noteq> detail (samplesReducer (initialState\<lparr>detail := Some [''id'' \<mapsto> 9::nat]\<rparr>)
              GET_SAMPLE_REQUESTED))"
  by simp

text \<open>
  C8. For every state with a detail record and every \<^verbatim>\<open>UPDATE_SAMPLE.SUCCEEDED\<close> or
  \<^verbatim>\<open>UPDATE_SAMPLE_RIGHTS.SUCCEEDED\<close> action carrying a payload, the new detail is a
  record in which every property of the payload has the payload's value and every
  other property has the value it had in the old detail; no other field of the state
  changes.
\<close>

theorem partial_update_shallow_merge:
  assumes "detail s = Some d"
    and "a = UPDATE_SAMPLE_SUCCEEDED (Some p) \<or> a = UPDATE_SAMPLE_RIGHTS_SUCCEEDED (Some p)"
  shows "\<exists>d'. detail (samplesReducer s a) = Some d'
           \<and> (\<forall>k. (k \<in> dom p \<longrightarrow> d' k = p k) \<and> (k \<notin> dom p \<longrightarrow> d' k = d k))
           \<and> samplesReducer s a = s\<lparr>detail := Some d'\<rparr>"
proof -
  have merged: "samplesReducer s a = s\<lparr>detail := Some (d ++ p)\<rparr>"
    using assms by (auto simp: spread_def)
  have "\<forall>k. (k \<in> dom p \<longrightarrow> (d ++ p) k = p k) \<and> (k \<notin> dom p \<longrightarrow> (d ++ p) k = d k)"
    by (auto simp: map_add_def split: option.splits)
  with merged show ?thesis by simp
qed

theorem partial_update_shallow_merge_witness:
  "detail (samplesReducer
      (initialState\<lparr>detail := Some [''id'' \<mapsto> 9::nat, ''name'' \<mapsto> 1, ''quality'' \<mapsto> 4]\<rparr>)
      (UPDATE_SAMPLE_SUCCEEDED (Some [''name'' \<mapsto> 2, ''host'' \<mapsto> 3])))
   = Some [''id'' \<mapsto> 9, ''name'' \<mapsto> 2, ''quality'' \<mapsto> 4, ''host'' \<mapsto> 3]"
proof -
  let ?d = "[''id'' \<mapsto> 9::nat, ''name'' \<mapsto> 1, ''quality'' \<mapsto> 4]"
  let ?p = "[''name'' \<mapsto> 2::nat, ''host'' \<mapsto> 3]"
  let ?s = "initialState\<lparr>detail := Some ?d\<rparr>"
  have "detail ?s = Some ?d" by simp
  from partial_update_shallow_merge [OF this, of "UPDATE_SAMPLE_SUCCEEDED (Some ?p)" ?p]
  obtain d' where d': "detail (samplesReducer ?s (UPDATE_SAMPLE_SUCCEEDED (Some ?p))) = Some d'"
    and pay: "\<And>k. k \<in> dom ?p \<Longrightarrow> d' k = ?p k"
    and old: "\<And>k. k \<notin> dom ?p \<Longrightarrow> d' k = ?d k"
    by blast
  have "d' k = [''id'' \<mapsto> 9, ''name'' \<mapsto> 2, ''quality'' \<mapsto> 4, ''host'' \<mapsto> 3] k" for k
  proof (cases "k \<in> dom ?p")
    case True
    with pay [OF True] show ?thesis by auto
  next
    case False
    with old [OF False] show ?thesis by auto
  qed
  then have "d' = [''id'' \<mapsto> 9, ''name'' \<mapsto> 2, ''quality'' \<mapsto> 4, ''host'' \<mapsto> 3]"
    by (rule ext)
  with d' show ?thesis by simp
qed

section \<open>Query requests and unhandled actions\<close>

text \<open>
  C7, as the code has it. For every state, \<^verbatim>\<open>FIND_SAMPLES.REQUESTED\<close> writes the
  requested term into the filter term and leaves every other field as it was: the
  page, whatever page the request asks for, and with it the documents, the detail slot
  and the selection.
\<close>

theorem find_samples_requested_writes_term_only:
  "samplesReducer s (FIND_SAMPLES_REQUESTED t p) = s\<lparr>term_field := t\<rparr>
   \<and> term_field (samplesReducer s (FIND_SAMPLES_REQUESTED t p)) = t
   \<and> page (samplesReducer s (FIND_SAMPLES_REQUESTED t p)) = page s
   \<and> documents (samplesReducer s (FIND_SAMPLES_REQUESTED t p)) = documents s
   \<and> detail (samplesReducer s (FIND_SAMPLES_REQUESTED t p)) = detail s
   \<and> selected (samplesReducer s (FIND_SAMPLES_REQUESTED t p)) = selected s"
  by simp

theorem find_samples_requested_writes_term_only_witness:
  "samplesReducer
     (initialState\<lparr>documents := Some [[''id'' \<mapsto> 1::nat]], page := 2, selected := [1]\<rparr>)
     (FIND_SAMPLES_REQUESTED ''abc'' (Some 5))
   = initialState\<lparr>documents := Some [[''id'' \<mapsto> 1::nat]], page := 2, selected := [1],
        term_field := ''abc''\<rparr>"
  using find_samples_requested_writes_term_only
    [of "initialState\<lparr>documents := Some [[''id'' \<mapsto> 1::nat]], page := 2, selected := [1]\<rparr>"
        "''abc''" "Some 5"]
  by (simp add: initialState_def)

text \<open>
  C7, as the claim states it, fails in its page half: a request for the term
  \<^verbatim>\<open>abc\<close> and page 5, applied to a state on page 2, does not update the page to the
  requested one.
\<close>

theorem find_samples_requested_page_not_updated:
  "\<not> (page (samplesReducer (initialState\<lparr>page := 2\<rparr> :: nat state)
              (FIND_SAMPLES_REQUESTED ''abc'' (Some 5))) = 5)"
  by simp

text \<open>
  C9. For every state and every action whose type is none of the types the reducer
  has a case for, the reducer returns the state it was given.
\<close>

theorem unhandled_action_identity:
  "\<not> handled a \<Longrightarrow> samplesReducer s a = s"
  by (cases a) simp_all

theorem unhandled_action_identity_witness:
  "\<not> handled (OTHER ''FIND_SAMPLES_FAILED'' :: nat action)
   \<and> samplesReducer (initialState\<lparr>selected := [3::nat]\<rparr>) (OTHER ''FIND_SAMPLES_FAILED'')
       = initialState\<lparr>selected := [3]\<rparr>"
  using unhandled_action_identity
    [of "OTHER ''FIND_SAMPLES_FAILED'' :: nat action" "initialState\<lparr>selected := [3::nat]\<rparr>"]
  by simp

section \<open>Reordering\<close>

lemma splice_delete_one:
  assumes "i < length xs"
  shows "splice xs (int i) 1 [] = (take i xs @ drop (Suc i) xs, [xs ! i])"
proof -
  have "drop i xs = xs ! i # drop (Suc i) xs"
    using assms by (simp add: Cons_nth_drop_Suc)
  then have "take 1 (drop i xs) = [xs ! i]" by simp
  moreover have "min 1 (length xs - i) = 1" using assms by simp
  moreover have "actualStart (int i) (length xs) = i"
    using assms by (simp add: actualStart_def)
  ultimately show ?thesis by (simp add: splice_def)
qed

lemma splice_insert_one:
  assumes "j \<le> length ys"
  shows "fst (splice ys (int j) 0 [x]) = take j ys @ x # drop j ys"
  using assms by (simp add: splice_def actualStart_def)

lemma reorder_in_range:
  assumes "i < length xs" and "j < length xs"
  shows "reorder xs (int i) (int j)
           = take j (take i xs @ drop (Suc i) xs) @ xs ! i # drop j (take i xs @ drop (Suc i) xs)"
proof -
  define rest where "rest = take i xs @ drop (Suc i) xs"
  have first: "splice xs (int i) 1 [] = (rest, [xs ! i])"
    unfolding rest_def using assms(1) by (rule splice_delete_one)
  have "j \<le> length rest" using assms by (simp add: rest_def)
  then have second: "fst (splice rest (int j) 0 [xs ! i]) = take j rest @ xs ! i # drop j rest"
    by (rule splice_insert_one)
  have "reorder xs (int i) (int j) = fst (splice rest (int j) 0 [xs ! i])"
    unfolding reorder_def first by simp
  then have "reorder xs (int i) (int j) = take j rest @ xs ! i # drop j rest"
    using second by (rule trans)
  then show ?thesis
    by (simp only: rest_def)
qed

text \<open>
  C10. For every list and every pair of indices inside it, \<^verbatim>\<open>reorder\<close> returns a list
  of the same length with the same elements, counted with their multiplicity; the
  element that stood at \<^verbatim>\<open>startIndex\<close> stands at \<^verbatim>\<open>endIndex\<close>, and the other
  elements keep their relative order: the result without position \<^verbatim>\<open>endIndex\<close> is the
  list without position \<^verbatim>\<open>startIndex\<close>.
\<close>

theorem reorder_is_a_move:
  assumes "0 \<le> startIndex" and "startIndex < int (length list)"
    and "0 \<le> endIndex" and "endIndex < int (length list)"
  shows "length (reorder list startIndex endIndex) = length list
       \<and> mset (reorder list startIndex endIndex) = mset list
       \<and> reorder list startIndex endIndex ! nat endIndex = list ! nat startIndex
       \<and> take (nat endIndex) (reorder list startIndex endIndex)
             @ drop (Suc (nat endIndex)) (reorder list startIndex endIndex)
           = take (nat startIndex) list @ drop (Suc (nat startIndex)) list"
proof -
  define i where "i = nat startIndex"
  define j where "j = nat endIndex"
  define rest where "rest = take i list @ drop (Suc i) list"
  have i: "i < length list" and j: "j < length list"
    and si: "startIndex = int i" and ej: "endIndex = int j"
    using assms by (simp_all add: i_def j_def)
  have r: "reorder list startIndex endIndex = take j rest @ list ! i # drop j rest"
    unfolding si ej rest_def using i j by (rule reorder_in_range)
  have len_rest: "Suc (length rest) = length list"
    using i by (simp add: rest_def)
  then have j_rest: "j \<le> length rest" using j by simp
  have split: "take i list @ list ! i # drop (Suc i) list = list"
    using i by (rule id_take_nth_drop [symmetric])
  have "mset (take i list @ list ! i # drop (Suc i) list) = add_mset (list ! i) (mset rest)"
    by (simp add: rest_def)
  then have mset_rest: "mset list = add_mset (list ! i) (mset rest)"
    by (simp only: split)
  have "mset (take j rest @ list ! i # drop j rest)
          = add_mset (list ! i) (mset (take j rest @ drop j rest))"
    by (simp only: mset_append mset.simps union_mset_add_mset_right)
  also have "\<dots> = add_mset (list ! i) (mset rest)"
    by (simp only: append_take_drop_id)
  finally have c2: "mset (reorder list startIndex endIndex) = mset list"
    unfolding r mset_rest .
  have c1: "length (reorder list startIndex endIndex) = length list"
    using r len_rest j_rest by simp
  have c3: "reorder list startIndex endIndex ! j = list ! i"
    using r j_rest by (simp add: nth_append)
  have "take j (take j rest @ list ! i # drop j rest) = take j rest"
    using j_rest by simp
  moreover have "drop (Suc j) (take j rest @ list ! i # drop j rest) = drop j rest"
    using j_rest by simp
  ultimately have c4: "take j (reorder list startIndex endIndex)
      @ drop (Suc j) (reorder list startIndex endIndex) = rest"
    using r by simp
  show ?thesis
    using c1 c2 c3 c4 by (simp add: i_def j_def rest_def)
qed

theorem reorder_is_a_move_witness:
  "reorder [Some ''a'', Some ''b'', Some ''c'', Some ''d''] 0 2
     = [Some ''b'', Some ''c'', Some ''a'', Some ''d'']
   \<and> mset [Some ''b'', Some ''c'', Some ''a'', Some ''d'']
     = mset [Some ''a'', Some ''b'', Some ''c'', Some ''d'']"
  using reorder_is_a_move [of 0 "[Some ''a'', Some ''b'', Some ''c'', Some ''d'']" 2]
  by (simp add: reorder_def splice_def actualStart_def)

section \<open>Push events and the document sequence\<close>

lemma doc_id_merge:
  assumes "doc_id d = Some i" and "doc_id p = None \<or> doc_id p = Some i"
  shows "doc_id (d ++ p) = Some i"
  using assms by (auto simp: doc_id_def map_add_def)

lemma mset_insert_sorted: "mset (insert_sorted f b p ds) = add_mset p (mset ds)"
  by (induction ds) auto

lemma distinct_ids_insert_sorted:
  assumes "distinct (map doc_id ds)" and "doc_id p \<notin> set (map doc_id ds)"
  shows "distinct (map doc_id (insert_sorted f b p ds))"
proof -
  have "mset (map doc_id (insert_sorted f b p ds)) = mset (map doc_id (p # ds))"
    by (simp add: mset_insert_sorted)
  moreover have "distinct (map doc_id (p # ds))"
    using assms by simp
  ultimately show ?thesis
    using mset_eq_imp_distinct_iff by blast
qed

lemma distinct_ids_evict:
  "distinct (map doc_id ds) \<Longrightarrow> distinct (map doc_id (evict bound ds))"
  by (auto simp: evict_def map_butlast distinct_butlast split: option.splits)

lemma distinct_ids_update:
  assumes "distinct (map doc_id (docs_of s))"
    and "doc_id (payload ev) = None \<or> doc_id (payload ev) = Some (documentId ev)"
  shows "distinct (map doc_id (docs_of (update s ev)))"
proof (cases "present (documentId ev) (docs_of s)")
  case True
  define merge where
    "merge = (\<lambda>d. if doc_id d = Some (documentId ev) then d ++ payload ev else d)"
  have same: "map doc_id (map merge ds) = map doc_id ds" for ds
    using assms(2) by (induction ds) (auto simp: merge_def doc_id_merge)
  have "docs_of (update s ev) = map merge (docs_of s)"
    using True by (simp add: update_def docs_of_def merge_def)
  then show ?thesis
    using assms(1) by (simp only: same)
next
  case False
  then show ?thesis
    using assms(1) by (simp add: update_def)
qed

lemma distinct_ids_insert_docs:
  assumes "distinct (map doc_id (docs_of s))"
    and "doc_id (payload ev) = Some (documentId ev)"
  shows "distinct (map doc_id (docs_of (insert_docs s ev f b)))"
proof (cases "present (documentId ev) (docs_of s)")
  case True
  then show ?thesis
    using assms by (simp add: insert_docs_def distinct_ids_update)
next
  case False
  then have "doc_id (payload ev) \<notin> set (map doc_id (docs_of s))"
    using assms(2) by (simp add: present_def)
  with assms(1) have "distinct (map doc_id (insert_sorted f b (payload ev) (docs_of s)))"
    by (rule distinct_ids_insert_sorted)
  then have "distinct (map doc_id (evict (pageSize s) (insert_sorted f b (payload ev) (docs_of s))))"
    by (rule distinct_ids_evict)
  with False show ?thesis
    by (simp add: insert_docs_def docs_of_def)
qed

lemma distinct_ids_remove:
  assumes "distinct (map doc_id (docs_of s))"
  shows "distinct (map doc_id (docs_of (remove s ev)))"
proof -
  have "distinct (map doc_id (filter (\<lambda>d. doc_id d \<noteq> Some (documentId ev)) (docs_of s)))"
    using assms by (rule distinct_map_filter)
  then show ?thesis
    using assms by (auto simp: remove_def docs_of_def Let_def split: option.splits)
qed

lemma distinct_ids_step:
  assumes "distinct (map doc_id (docs_of s))" and "wf_push a"
  shows "distinct (map doc_id (docs_of (samplesReducer s a)))"
  using assms
  by (cases a) (simp_all add: distinct_ids_insert_docs distinct_ids_update distinct_ids_remove)

lemma distinct_ids_run:
  assumes "distinct (map doc_id (docs_of s))" and "\<forall>a \<in> set evs. wf_push a"
  shows "distinct (map doc_id (docs_of (run s evs)))"
  using assms
proof (induction evs arbitrary: s)
  case Nil
  then show ?case by (simp add: run_def)
next
  case (Cons a evs)
  have "distinct (map doc_id (docs_of (samplesReducer s a)))"
    using Cons.prems by (simp add: distinct_ids_step)
  moreover have "\<forall>b \<in> set evs. wf_push b"
    using Cons.prems by simp
  ultimately have "distinct (map doc_id (docs_of (run (samplesReducer s a) evs)))"
    by (rule Cons.IH)
  then show ?case by (simp add: run_def)
qed

text \<open>
  C2. For every finite sequence of well-formed Insert, Update and Remove push actions
  folded by the reducer from a state whose document sequence is empty, no two documents
  of the resulting sequence have the same identifier.
\<close>

theorem push_events_keep_identifiers_distinct:
  assumes "docs_of s = []" and "\<forall>a \<in> set evs. wf_push a"
  shows "distinct (map doc_id (docs_of (run s evs)))"
proof -
  have "distinct (map doc_id (docs_of s))"
    using assms(1) by simp
  then show ?thesis
    using assms(2) by (rule distinct_ids_run)
qed

theorem push_events_keep_identifiers_distinct_witness:
  "docs_of (initialState :: nat state) = []
   \<and> list_all wf_push
        [WS_INSERT_SAMPLE \<lparr>documentId = 1::nat, payload = [''id'' \<mapsto> 1, ''created_at'' \<mapsto> 10]\<rparr>,
         WS_INSERT_SAMPLE \<lparr>documentId = 2, payload = [''id'' \<mapsto> 2, ''created_at'' \<mapsto> 20]\<rparr>,
         WS_INSERT_SAMPLE \<lparr>documentId = 1, payload = [''id'' \<mapsto> 1, ''created_at'' \<mapsto> 30]\<rparr>,
         WS_UPDATE_SAMPLE \<lparr>documentId = 2, payload = [''name'' \<mapsto> 7]\<rparr>,
         WS_REMOVE_SAMPLE \<lparr>documentId = 3, payload = Map.empty\<rparr>]
   \<and> distinct (map doc_id (docs_of (run initialState
        [WS_INSERT_SAMPLE \<lparr>documentId = 1::nat, payload = [''id'' \<mapsto> 1, ''created_at'' \<mapsto> 10]\<rparr>,
         WS_INSERT_SAMPLE \<lparr>documentId = 2, payload = [''id'' \<mapsto> 2, ''created_at'' \<mapsto> 20]\<rparr>,
         WS_INSERT_SAMPLE \<lparr>documentId = 1, payload = [''id'' \<mapsto> 1, ''created_at'' \<mapsto> 30]\<rparr>,
         WS_UPDATE_SAMPLE \<lparr>documentId = 2, payload = [''name'' \<mapsto> 7]\<rparr>,
         WS_REMOVE_SAMPLE \<lparr>documentId = 3, payload = Map.empty\<rparr>])))"
proof -
  let ?evs =
    "[WS_INSERT_SAMPLE \<lparr>documentId = 1::nat, payload = [''id'' \<mapsto> 1, ''created_at'' \<mapsto> 10]\<rparr>,
      WS_INSERT_SAMPLE \<lparr>documentId = 2, payload = [''id'' \<mapsto> 2, ''created_at'' \<mapsto> 20]\<rparr>,
      WS_INSERT_SAMPLE \<lparr>documentId = 1, payload = [''id'' \<mapsto> 1, ''created_at'' \<mapsto> 30]\<rparr>,
      WS_UPDATE_SAMPLE \<lparr>documentId = 2, payload = [''name'' \<mapsto> 7]\<rparr>,
      WS_REMOVE_SAMPLE \<lparr>documentId = 3, payload = Map.empty\<rparr>]"
  have empty: "docs_of (initialState :: nat state) = []"
    by (simp add: docs_of_def initialState_def)
  have wf: "\<forall>a \<in> set ?evs. wf_push a"
    by (simp add: doc_id_def)
  have "distinct (map doc_id (docs_of (run initialState ?evs)))"
    using empty wf by (rule push_events_keep_identifiers_distinct)
  with empty wf show ?thesis
    by (simp add: list_all_iff)
qed

lemma push_events_example:
  "map doc_id (docs_of (run (initialState :: nat state)
        [WS_INSERT_SAMPLE \<lparr>documentId = 1::nat, payload = [''id'' \<mapsto> 1, ''created_at'' \<mapsto> 10]\<rparr>,
         WS_INSERT_SAMPLE \<lparr>documentId = 2, payload = [''id'' \<mapsto> 2, ''created_at'' \<mapsto> 20]\<rparr>,
         WS_INSERT_SAMPLE \<lparr>documentId = 1, payload = [''id'' \<mapsto> 1, ''created_at'' \<mapsto> 30]\<rparr>,
         WS_UPDATE_SAMPLE \<lparr>documentId = 2, payload = [''name'' \<mapsto> 7]\<rparr>,
         WS_REMOVE_SAMPLE \<lparr>documentId = 3, payload = Map.empty\<rparr>]))
   = [Some 1, Some 2]"
  by (simp add: run_def insert_docs_def update_def remove_def present_def doc_id_def
      docs_of_def evict_def initialState_def)

section \<open>Query results and the detail slot under push events\<close>

text \<open>
  C1. For every state and every query-success action whose echoed term or page differs
  from the term or page of the state, the reducer returns the state unchanged.
\<close>

theorem stale_query_success_discarded:
  assumes "r_term r \<noteq> term_field s \<or> r_page r \<noteq> page s"
  shows "samplesReducer s (FIND_SAMPLES_SUCCEEDED r) = s"
  using assms by (auto simp: updateDocuments_def)

theorem stale_query_success_discarded_witness:
  "r_term \<lparr>r_documents = [[''id'' \<mapsto> 4::nat]], r_page = 1, r_totalDocumentCount = 1,
           r_totalPageCount = 1, r_term = ''old''\<rparr>
     \<noteq> term_field (initialState\<lparr>term_field := ''new'', page := 1\<rparr> :: nat state)
   \<and> samplesReducer (initialState\<lparr>term_field := ''new'', page := 1\<rparr>)
        (FIND_SAMPLES_SUCCEEDED
          \<lparr>r_documents = [[''id'' \<mapsto> 4::nat]], r_page = 1, r_totalDocumentCount = 1,
           r_totalPageCount = 1, r_term = ''old''\<rparr>)
     = initialState\<lparr>term_field := ''new'', page := 1\<rparr>"
  using stale_query_success_discarded
    [of "\<lparr>r_documents = [[''id'' \<mapsto> 4::nat]], r_page = 1, r_totalDocumentCount = 1,
           r_totalPageCount = 1, r_term = ''old''\<rparr>"
        "initialState\<lparr>term_field := ''new'', page := 1\<rparr>"]
  by simp

text \<open>
  C6. For every state and every query-success action, the selection after the action
  is the selection before it, whether the response is taken or discarded and whether or
  not the selected documents are on the new page.
\<close>

theorem query_success_keeps_selection:
  "selected (samplesReducer s (FIND_SAMPLES_SUCCEEDED r)) = selected s"
  by (simp add: updateDocuments_def)

theorem query_success_keeps_selection_witness:
  "selected (samplesReducer
      (initialState\<lparr>documents := Some [[''id'' \<mapsto> 1::nat]], selected := [1]\<rparr>)
      (FIND_SAMPLES_SUCCEEDED
        \<lparr>r_documents = [[''id'' \<mapsto> 2]], r_page = 0, r_totalDocumentCount = 1,
         r_totalPageCount = 1, r_term = []\<rparr>)) = [1]
   \<and> map doc_id (docs_of (samplesReducer
      (initialState\<lparr>documents := Some [[''id'' \<mapsto> 1::nat]], selected := [1]\<rparr>)
      (FIND_SAMPLES_SUCCEEDED
        \<lparr>r_documents = [[''id'' \<mapsto> 2]], r_page = 0, r_totalDocumentCount = 1,
         r_totalPageCount = 1, r_term = []\<rparr>))) = [Some 2]"
  using query_success_keeps_selection
    [of "initialState\<lparr>documents := Some [[''id'' \<mapsto> 1::nat]], selected := [1]\<rparr>"
        "\<lparr>r_documents = [[''id'' \<mapsto> 2]], r_page = 0, r_totalDocumentCount = 1,
         r_totalPageCount = 1, r_term = []\<rparr>"]
  by (simp add: updateDocuments_def initialState_def docs_of_def doc_id_def)

text \<open>
  C4. For every state whose detail slot holds a document with identifier \<open>i\<close>, a
  Remove push action for \<open>i\<close> leaves the detail slot empty, and the error flag of the
  state is what it was.
\<close>

theorem remove_push_clears_open_detail:
  assumes "detail s = Some d" and "doc_id d = Some i" and "documentId ev = i"
  shows "detail (samplesReducer s (WS_REMOVE_SAMPLE ev)) = None
       \<and> editError (samplesReducer s (WS_REMOVE_SAMPLE ev)) = editError s"
  using assms by (simp add: remove_def Let_def)

theorem remove_push_clears_open_detail_witness:
  "detail (samplesReducer
      (initialState\<lparr>detail := Some [''id'' \<mapsto> 9::nat, ''name'' \<mapsto> 24]\<rparr>)
      (WS_REMOVE_SAMPLE \<lparr>documentId = 9, payload = Map.empty\<rparr>)) = None
   \<and> editError (samplesReducer
      (initialState\<lparr>detail := Some [''id'' \<mapsto> 9::nat, ''name'' \<mapsto> 24]\<rparr>)
      (WS_REMOVE_SAMPLE \<lparr>documentId = 9, payload = Map.empty\<rparr>)) = False"
  using remove_push_clears_open_detail
    [of "initialState\<lparr>detail := Some [''id'' \<mapsto> 9::nat, ''name'' \<mapsto> 24]\<rparr>"
        "[''id'' \<mapsto> 9::nat, ''name'' \<mapsto> 24]" 9 "\<lparr>documentId = 9, payload = Map.empty\<rparr>"]
  by (simp add: doc_id_def initialState_def)

end
